theory Spec2Isabelle
  imports Main "HOL-Library.Product_Lexorder" "HOL-Library.Multiset"
begin

section \<open>Data model: pandas tables\<close>

text \<open>
  The module \<^verbatim>\<open>reco_utils/dataset/pandas_df_utils.py\<close> works on pandas DataFrames.
  A DataFrame is modelled by its column labels, one dtype per column and its rows, each
  row holding one cell per column (the row index of pandas is not modelled: rows are
  identified by position only).
  The dtype of a column is what the type check of \<^verbatim>\<open>libffm_converter\<close> looks at:
  \<^verbatim>\<open>object\<close>, an integer dtype, \<^verbatim>\<open>float64\<close> (which is what \<^verbatim>\<open>np.float\<close>
  compares equal to), or anything else (bool, float32, datetime64, ...).
\<close>

datatype dtype = DObject | DInteger | DFloat64 | DOther

record 'a dataframe =
  columns :: "string list"
  dtypes :: "dtype list"
  rows :: "'a list list"

text \<open>The exceptions the module raises itself or lets pandas raise.\<close>

datatype error = KeyError | TypeError | ValueError | IndexError

text \<open>
  A well-formed table: one dtype per column, every row as long as the column list, and
  unique column labels.
\<close>

definition wf_df :: "'a dataframe \<Rightarrow> bool" where
  "wf_df df \<longleftrightarrow>
     length (dtypes df) = length (columns df) \<and>
     list_all (\<lambda>r. length r = length (columns df)) (rows df) \<and>
     distinct (columns df)"

text \<open>Position of a column label; \<open>None\<close> when the table has no such column.\<close>

fun index_of :: "string \<Rightarrow> string list \<Rightarrow> nat option" where
  "index_of c [] = None"
| "index_of c (x # xs) = (if x = c then Some 0 else map_option Suc (index_of c xs))"

text \<open>The values of the column at position \<open>j\<close>, top to bottom.\<close>

definition column_values :: "'a dataframe \<Rightarrow> nat \<Rightarrow> 'a list" where
  "column_values df j = map (\<lambda>r. r ! j) (rows df)"

text \<open>The first error of a list of results, or all the values.\<close>

fun collect :: "('e + 'a) list \<Rightarrow> 'e + 'a list" where
  "collect [] = Inr []"
| "collect (x # xs) =
     (case x of Inl e \<Rightarrow> Inl e
      | Inr v \<Rightarrow> (case collect xs of Inl e \<Rightarrow> Inl e | Inr vs \<Rightarrow> Inr (v # vs)))"

section \<open>libffm\_converter\<close>

text \<open>
  Cells of a feature table: a Python \<^verbatim>\<open>str\<close>, an \<^verbatim>\<open>int\<close>, a \<^verbatim>\<open>float\<close>, or any
  other object (a bool, \<^verbatim>\<open>None\<close>, ...). A float and an object of another type are
  carried as the text Python's \<^verbatim>\<open>str\<close> prints for them (\<^verbatim>\<open>1.0\<close> is \<open>CFloat ''1.0''\<close>,
  \<^verbatim>\<open>True\<close> is \<open>CObj ''True''\<close>): the converter only ever formats such a cell, it never
  computes with one. Dictionary keys are compared as cells; Python's \<^verbatim>\<open>==\<close> agrees
  with that on strings and on ints (an \<^verbatim>\<open>object\<close> column that mixes numerically equal
  ints, floats and bools is outside the model).
\<close>

datatype cell = CStr string | CInt int | CFloat string | CObj string

text \<open>Python's \<^verbatim>\<open>str\<close> of a non-negative integer, in decimal.\<close>

fun str_nat :: "nat \<Rightarrow> string" where
  "str_nat n =
     (if n < 10 then [''0123456789'' ! n]
      else str_nat (n div 10) @ [''0123456789'' ! (n mod 10)])"

declare str_nat.simps [simp del]

definition str_int :: "int \<Rightarrow> string" where
  "str_int i = (if i < 0 then CHR ''-'' # str_nat (nat (- i)) else str_nat (nat i))"

text \<open>What \<^verbatim>\<open>"{}".format(x)\<close> and \<^verbatim>\<open>'%s' % x\<close> print for a cell.\<close>

fun py_str :: "cell \<Rightarrow> string" where
  "py_str (CStr s) = s"
| "py_str (CInt i) = str_int i"
| "py_str (CFloat t) = t"
| "py_str (CObj t) = t"

text \<open>
  Line 130: \<^verbatim>\<open>x == object or np.issubdtype(x, np.integer) or x == np.float\<close>.
\<close>

fun dtype_ok :: "dtype \<Rightarrow> bool" where
  "dtype_ok DObject = True"
| "dtype_ok DInteger = True"
| "dtype_ok DFloat64 = True"
| "dtype_ok DOther = False"

text \<open>
  Lines 136-145, the inner loop over the values of one object column: a pair
  \<open>(field, feature)\<close> that is not yet a key gets the counter's value, and the counter
  moves on. The state is the counter \<^verbatim>\<open>idx\<close> and the dictionary
  \<^verbatim>\<open>field_feature_dict\<close>.
\<close>

type_synonym feature_dict = "string \<times> cell \<rightharpoonup> nat"

fun scan_features :: "string \<Rightarrow> cell list \<Rightarrow> nat \<times> feature_dict \<Rightarrow> nat \<times> feature_dict" where
  "scan_features field [] (idx, d) = (idx, d)"
| "scan_features field (feature # fs) (idx, d) =
     (if d (field, feature) = None
      then scan_features field fs (idx + 1, d((field, feature) \<mapsto> idx))
      else scan_features field fs (idx, d))"

text \<open>
  The outer loop over \<^verbatim>\<open>field_names\<close>: only a column whose dtype is \<^verbatim>\<open>object\<close> is
  scanned. \<^verbatim>\<open>df_new[field]\<close> is the column with that label; the names are labels of the
  table (line 133), so the column is found, and the function passes over a name that is
  no label.
\<close>

fun encode_fields :: "cell dataframe \<Rightarrow> string list \<Rightarrow> nat \<times> feature_dict \<Rightarrow> nat \<times> feature_dict" where
  "encode_fields df [] st = st"
| "encode_fields df (field # rest) st =
     (case index_of field (columns df) of
        None \<Rightarrow> encode_fields df rest st
      | Some j \<Rightarrow>
          if dtypes df ! j = DObject
          then encode_fields df rest (scan_features field (column_values df j) st)
          else encode_fields df rest st)"

definition field_feature_dict :: "cell dataframe \<Rightarrow> string list \<Rightarrow> nat \<times> feature_dict" where
  "field_feature_dict df field_names = encode_fields df field_names (1, Map.empty)"

text \<open>
  Lines 147-154, \<^verbatim>\<open>_convert\<close>: a \<^verbatim>\<open>str\<close> cell is looked up in the dictionary (a missing
  key raises \<^verbatim>\<open>KeyError\<close>) and its value becomes 1; any other cell keeps its value
  and takes the field index as feature index.
\<close>

definition format3 :: "string \<Rightarrow> string \<Rightarrow> string \<Rightarrow> string" where
  "format3 a b c = a @ '':'' @ b @ '':'' @ c"

fun convert :: "string \<Rightarrow> cell \<Rightarrow> nat \<Rightarrow> feature_dict \<Rightarrow> error + cell" where
  "convert field (CStr s) field_index d =
     (case d (field, CStr s) of
        None \<Rightarrow> Inl KeyError
      | Some field_feature_index \<Rightarrow>
          Inr (CStr (format3 (str_nat field_index) (str_nat field_feature_index) (py_str (CInt 1)))))"
| "convert field feature field_index d =
     Inr (CStr (format3 (str_nat field_index) (str_nat field_index) (py_str feature)))"

text \<open>
  Lines 156-157: column \<^verbatim>\<open>col\<close> (the \<open>col_index\<close>-th field, counted from 0) is replaced
  by its converted cells; the new column holds strings, so its dtype is \<^verbatim>\<open>object\<close>.
\<close>

definition set_cells :: "'a dataframe \<Rightarrow> nat \<Rightarrow> dtype \<Rightarrow> 'a list \<Rightarrow> 'a dataframe" where
  "set_cells df j t vs =
     df\<lparr>dtypes := (dtypes df)[j := t],
        rows := map (\<lambda>(r, v). r[j := v]) (zip (rows df) vs)\<rparr>"

fun convert_columns :: "cell dataframe \<Rightarrow> feature_dict \<Rightarrow> nat \<Rightarrow> string list \<Rightarrow> error + cell dataframe" where
  "convert_columns df d col_index [] = Inr df"
| "convert_columns df d col_index (col # cols) =
     (case index_of col (columns df) of
        None \<Rightarrow> Inl KeyError
      | Some j \<Rightarrow>
          (case collect (map (\<lambda>x. convert col x (col_index + 1) d) (column_values df j)) of
             Inl e \<Rightarrow> Inl e
           | Inr vs \<Rightarrow> convert_columns (set_cells df j DObject vs) d (col_index + 1) cols))"

text \<open>
  Line 161, \<^verbatim>\<open>df_new[field_names]\<close>: the table of the named columns, in the order of the
  names; a label that is no column raises \<^verbatim>\<open>KeyError\<close>.
\<close>

definition key_positions :: "'a dataframe \<Rightarrow> string list \<Rightarrow> error + nat list" where
  "key_positions df names =
     collect (map (\<lambda>c. case index_of c (columns df) of
                          None \<Rightarrow> Inl KeyError | Some j \<Rightarrow> Inr j) names)"

definition select_columns :: "'a dataframe \<Rightarrow> string list \<Rightarrow> error + 'a dataframe" where
  "select_columns df names =
     (case key_positions df names of
        Inl e \<Rightarrow> Inl e
      | Inr js \<Rightarrow>
          Inr \<lparr>columns = names,
               dtypes = map (\<lambda>j. dtypes df ! j) js,
               rows = map (\<lambda>r. map (\<lambda>j. r ! j) js) (rows df)\<rparr>)"

text \<open>
  \<^verbatim>\<open>libffm_converter(df, col_rating)\<close> with \<^verbatim>\<open>filepath=None\<close>. The type check
  (lines 129-131) looks at the dtypes of all columns and comes first;
  \<^verbatim>\<open>df_new.drop(col_rating, axis=1)\<close> raises \<^verbatim>\<open>KeyError\<close> when the label column is
  missing.
\<close>

definition libffm_converter :: "cell dataframe \<Rightarrow> string \<Rightarrow> error + cell dataframe" where
  "libffm_converter df col_rating =
     (if \<not> list_all dtype_ok (dtypes df) then Inl TypeError
      else if col_rating \<notin> set (columns df) then Inl KeyError
      else
        let field_names = filter (\<lambda>c. c \<noteq> col_rating) (columns df);
            (idx, d) = field_feature_dict df field_names
        in case convert_columns df d 0 field_names of
             Inl e \<Rightarrow> Inl e
           | Inr df_new \<Rightarrow> select_columns df_new (col_rating # field_names))"

text \<open>
  Line 164, \<^verbatim>\<open>np.savetxt(filepath, df_new.values, delimiter=' ', fmt='%s')\<close>: the lines
  written for a table, one per row, cells separated by one space.
\<close>

fun join_with :: "string \<Rightarrow> string list \<Rightarrow> string" where
  "join_with sep [] = []"
| "join_with sep [x] = x"
| "join_with sep (x # y # ys) = x @ sep @ join_with sep (y # ys)"

definition savetxt_lines :: "cell dataframe \<Rightarrow> string list" where
  "savetxt_lines df = map (\<lambda>r. join_with '' '' (map py_str r)) (rows df)"


subsection \<open>The dictionary, as the specification words it\<close>

text \<open>
  The distinct elements of a list in the order of their first occurrence (this is also
  the order of pandas' \<^verbatim>\<open>Series.unique()\<close>).
\<close>

definition note_key :: "'k \<Rightarrow> 'k list \<Rightarrow> 'k list" where
  "note_key x ks = (if x \<in> set ks then ks else ks @ [x])"

definition first_occurrences :: "'k list \<Rightarrow> 'k list" where
  "first_occurrences xs = fold note_key xs []"




subsection \<open>The example of the docstring\<close>

definition df_feature :: "cell dataframe" where
  "df_feature =
     \<lparr>columns = [''rating'', ''field1'', ''field2'', ''field3'', ''field4''],
      dtypes = [DInteger, DObject, DInteger, DFloat64, DObject],
      rows = [[CInt 1, CStr ''xxx1'', CInt 3, CFloat ''1.0'', CStr ''1''],
              [CInt 0, CStr ''xxx2'', CInt 4, CFloat ''2.0'', CStr ''2''],
              [CInt 0, CStr ''xxx4'', CInt 5, CFloat ''3.0'', CStr ''3''],
              [CInt 1, CStr ''xxx4'', CInt 6, CFloat ''4.0'', CStr ''4''],
              [CInt 1, CStr ''xxx4'', CInt 7, CFloat ''5.0'', CStr ''5'']]\<rparr>"

definition df_out :: "cell dataframe" where
  "df_out =
     \<lparr>columns = [''rating'', ''field1'', ''field2'', ''field3'', ''field4''],
      dtypes = [DInteger, DObject, DObject, DObject, DObject],
      rows = [[CInt 1, CStr ''1:1:1'', CStr ''2:2:3'', CStr ''3:3:1.0'', CStr ''4:4:1''],
              [CInt 0, CStr ''1:2:1'', CStr ''2:2:4'', CStr ''3:3:2.0'', CStr ''4:5:1''],
              [CInt 0, CStr ''1:3:1'', CStr ''2:2:5'', CStr ''3:3:3.0'', CStr ''4:6:1''],
              [CInt 1, CStr ''1:3:1'', CStr ''2:2:6'', CStr ''3:3:4.0'', CStr ''4:7:1''],
              [CInt 1, CStr ''1:3:1'', CStr ''2:2:7'', CStr ''3:3:5.0'', CStr ''4:8:1'']]\<rparr>"




section \<open>filter\_by\<close>

text \<open>
  \<^verbatim>\<open>df.set_index(filter_by_cols).index\<close>: the key of every row, top to bottom, a key
  being the row's cells in the named columns. A label that is no column raises
  \<^verbatim>\<open>KeyError\<close>; an empty list of labels gives no index levels, which pandas refuses with
  \<^verbatim>\<open>ValueError\<close>.
\<close>

definition set_index_keys :: "'a dataframe \<Rightarrow> string list \<Rightarrow> error + 'a list list" where
  "set_index_keys df cols =
     (if cols = [] then Inl ValueError
      else case key_positions df cols of
             Inl e \<Rightarrow> Inl e
           | Inr js \<Rightarrow> Inr (map (\<lambda>r. map (\<lambda>j. r ! j) js) (rows df)))"

text \<open>
  Lines 68-72: the rows of \<open>df\<close> whose key is not among the keys of \<open>filter_by_df\<close>
  (\<^verbatim>\<open>isin\<close>, negated), in their order, all columns kept.
\<close>

definition filter_by :: "'a dataframe \<Rightarrow> 'a dataframe \<Rightarrow> string list \<Rightarrow> error + 'a dataframe" where
  "filter_by df filter_by_df filter_by_cols =
     (case set_index_keys df filter_by_cols of
        Inl e \<Rightarrow> Inl e
      | Inr ks \<Rightarrow>
          (case set_index_keys filter_by_df filter_by_cols of
             Inl e \<Rightarrow> Inl e
           | Inr fks \<Rightarrow>
               Inr (df\<lparr>rows := map fst (filter (\<lambda>(r, k). k \<notin> set fks) (zip (rows df) ks))\<rparr>)))"

section \<open>user\_item\_pairs\<close>

text \<open>
  The function changes its two argument tables in place (lines 37-38 and 41-42), so the
  tables live in a store and the function takes references to them; the two references
  may be the same.
\<close>

type_synonym ref = nat
type_synonym 'a heap = "ref \<Rightarrow> 'a dataframe"

text \<open>
  \<^verbatim>\<open>df[c] = v\<close> for a scalar \<open>v\<close>: an existing column \<open>c\<close> is overwritten, a new one is
  added as the last column.
\<close>

definition assign_scalar :: "'a dataframe \<Rightarrow> string \<Rightarrow> dtype \<Rightarrow> 'a \<Rightarrow> 'a dataframe" where
  "assign_scalar df c t v =
     (case index_of c (columns df) of
        Some j \<Rightarrow> df\<lparr>dtypes := (dtypes df)[j := t], rows := map (\<lambda>r. r[j := v]) (rows df)\<rparr>
      | None \<Rightarrow> df\<lparr>columns := columns df @ [c], dtypes := dtypes df @ [t],
                  rows := map (\<lambda>r. r @ [v]) (rows df)\<rparr>)"

definition remove_nth :: "nat \<Rightarrow> 'b list \<Rightarrow> 'b list" where
  "remove_nth j xs = take j xs @ drop (Suc j) xs"

text \<open>\<^verbatim>\<open>df.drop(c, axis=1)\<close>: \<^verbatim>\<open>KeyError\<close> when there is no column \<open>c\<close>.\<close>

definition drop_column :: "'a dataframe \<Rightarrow> string \<Rightarrow> error + 'a dataframe" where
  "drop_column df c =
     (case index_of c (columns df) of
        None \<Rightarrow> Inl KeyError
      | Some j \<Rightarrow>
          Inr \<lparr>columns = remove_nth j (columns df),
               dtypes = remove_nth j (dtypes df),
               rows = map (remove_nth j) (rows df)\<rparr>)"

text \<open>
  \<^verbatim>\<open>left.merge(right, on=c)\<close>, the inner join on one column. The result has the columns
  of \<open>left\<close> and then those of \<open>right\<close> without its join column; a label other than \<open>c\<close>
  that both tables have is suffixed \<^verbatim>\<open>_x\<close> on the left and \<^verbatim>\<open>_y\<close> on the right. Its rows
  are, for every row of \<open>left\<close> in order, the matching rows of \<open>right\<close> in order (the
  order pandas gives when all rows carry the same join value, as they do here).
\<close>

definition suffix_overlap :: "string \<Rightarrow> string list \<Rightarrow> string \<Rightarrow> string \<Rightarrow> string" where
  "suffix_overlap c others sfx l = (if l \<noteq> c \<and> l \<in> set others then l @ sfx else l)"

definition merge_on :: "'a dataframe \<Rightarrow> 'a dataframe \<Rightarrow> string \<Rightarrow> error + 'a dataframe" where
  "merge_on left right c =
     (case index_of c (columns left) of
        None \<Rightarrow> Inl KeyError
      | Some jl \<Rightarrow>
          (case index_of c (columns right) of
             None \<Rightarrow> Inl KeyError
           | Some jr \<Rightarrow>
               Inr \<lparr>columns = map (suffix_overlap c (columns right) ''_x'') (columns left) @
                              map (suffix_overlap c (columns left) ''_y'')
                                (remove_nth jr (columns right)),
                    dtypes = dtypes left @ remove_nth jr (dtypes right),
                    rows = concat (map (\<lambda>l. map (\<lambda>r. l @ remove_nth jr r)
                                               (filter (\<lambda>r. r ! jr = l ! jl) (rows right)))
                                       (rows left))\<rparr>))"

text \<open>
  Lines 36-43, "Get all user-item pairs": both tables get a column \<^verbatim>\<open>key\<close> of ones, are
  joined on it, and the column is dropped from the two tables (in place) and from the
  join. The result is the join, or the exception, and the store as the call leaves it.
\<close>

definition all_pairs :: "('a::one) heap \<Rightarrow> ref \<Rightarrow> ref \<Rightarrow> (error + 'a dataframe) \<times> 'a heap" where
  "all_pairs h user_df item_df =
     (let h1 = h(user_df := assign_scalar (h user_df) ''key'' DInteger 1);
          h2 = h1(item_df := assign_scalar (h1 item_df) ''key'' DInteger 1)
      in case merge_on (h2 user_df) (h2 item_df) ''key'' of
           Inl e \<Rightarrow> (Inl e, h2)
         | Inr users_items \<Rightarrow>
             (case drop_column (h2 user_df) ''key'' of
                Inl e \<Rightarrow> (Inl e, h2)
              | Inr u' \<Rightarrow>
                  let h3 = h2(user_df := u') in
                  (case drop_column (h3 item_df) ''key'' of
                     Inl e \<Rightarrow> (Inl e, h3)
                   | Inr i' \<Rightarrow>
                       let h4 = h3(item_df := i') in
                       (case drop_column users_items ''key'' of
                          Inl e \<Rightarrow> (Inl e, h4)
                        | Inr users_items' \<Rightarrow> (Inr users_items', h4)))))"

text \<open>
  \<^verbatim>\<open>user_item_pairs\<close>. The filter table is \<open>None\<close> or a table; \<open>sample_all\<close> stands for
  the unseeded random reordering \<^verbatim>\<open>sample(frac=1)\<close> draws when \<open>shuffle\<close> is set.
\<close>

definition user_item_pairs ::
  "('a::one) heap \<Rightarrow> ref \<Rightarrow> ref \<Rightarrow> string \<Rightarrow> string \<Rightarrow> 'a dataframe option \<Rightarrow> bool \<Rightarrow>
   ('a list list \<Rightarrow> 'a list list) \<Rightarrow> (error + 'a dataframe) \<times> 'a heap" where
  "user_item_pairs h user_df item_df user_col item_col user_item_filter_df shuffle sample_all =
     (case all_pairs h user_df item_df of
        (Inl e, h') \<Rightarrow> (Inl e, h')
      | (Inr users_items, h') \<Rightarrow>
          (case (case user_item_filter_df of
                   None \<Rightarrow> Inr users_items
                 | Some f \<Rightarrow> filter_by users_items f [user_col, item_col]) of
             Inl e \<Rightarrow> (Inl e, h')
           | Inr users_items' \<Rightarrow>
               (Inr (if shuffle then users_items'\<lparr>rows := sample_all (rows users_items')\<rparr>
                     else users_items'), h')))"

subsection \<open>The cross join, as the specification words it\<close>

text \<open>
  Every combination of one user row and one item row, the user rows in order and under
  each the item rows in order, a row of the result being the user row's cells followed by
  the item row's cells.
\<close>

definition cross_rows :: "'a list list \<Rightarrow> 'a list list \<Rightarrow> 'a list list" where
  "cross_rows us its = concat (map (\<lambda>u. map (\<lambda>i. u @ i) its) us)"

definition cross_table :: "'a dataframe \<Rightarrow> 'a dataframe \<Rightarrow> 'a dataframe" where
  "cross_table u i =
     \<lparr>columns = map (suffix_overlap ''key'' (columns i) ''_x'') (columns u) @
                map (suffix_overlap ''key'' (columns u) ''_y'') (columns i),
      dtypes = dtypes u @ dtypes i,
      rows = cross_rows (rows u) (rows i)\<rparr>"

text \<open>A store of two tables, at the references 0 and 1.\<close>

definition heap2 :: "'a dataframe \<Rightarrow> 'a dataframe \<Rightarrow> 'a heap" where
  "heap2 a b = (\<lambda>r. if r = 0 then a else b)"

text \<open>Example tables: two users, three items, and a user table with a column \<^verbatim>\<open>key\<close>.\<close>

definition users2 :: "int dataframe" where
  "users2 = \<lparr>columns = [''userID'', ''age''], dtypes = [DInteger, DInteger],
             rows = [[1, 30], [2, 40]]\<rparr>"

definition items3 :: "int dataframe" where
  "items3 = \<lparr>columns = [''itemID''], dtypes = [DInteger], rows = [[10], [20], [30]]\<rparr>"

definition users_with_key :: "int dataframe" where
  "users_with_key = \<lparr>columns = [''userID'', ''key''], dtypes = [DInteger, DInteger],
                      rows = [[1, 7], [2, 8]]\<rparr>"

definition seen2 :: "int dataframe" where
  "seen2 = \<lparr>columns = [''userID'', ''itemID''], dtypes = [DInteger, DInteger],
            rows = [[1, 10], [2, 30], [1, 10]]\<rparr>"

text \<open>The cross join of \<open>users2\<close> and \<open>items3\<close>, and of \<open>users_with_key\<close> and \<open>items3\<close>.\<close>

definition pairs23 :: "int dataframe" where
  "pairs23 = \<lparr>columns = [''userID'', ''age'', ''itemID''],
              dtypes = [DInteger, DInteger, DInteger],
              rows = [[1, 30, 10], [1, 30, 20], [1, 30, 30],
                      [2, 40, 10], [2, 40, 20], [2, 40, 30]]\<rparr>"

definition pairs_without_key :: "int dataframe" where
  "pairs_without_key = \<lparr>columns = [''userID'', ''itemID''],
              dtypes = [DInteger, DInteger],
              rows = [[1, 10], [1, 20], [1, 30], [2, 10], [2, 20], [2, 30]]\<rparr>"

section \<open>negative\_feedback\_sampler\<close>

text \<open>
  The table the function builds has the three columns \<^verbatim>\<open>col_user\<close>, \<^verbatim>\<open>col_item\<close> and
  \<^verbatim>\<open>rating\<close>; its rows are the triples (user, item, feedback) of lines 225-231. The ids
  are of any type with a linear order (the order the final sort uses).
\<close>

record 'a feedback_frame =
  fb_columns :: "string list"
  fb_rows :: "('a \<times> 'a \<times> int) list"

text \<open>
  The random generator is not part of the module. \<open>choice seed pop n\<close> stands for
  \<^verbatim>\<open>np.random.RandomState(seed).choice(pop, size=n, replace=False)\<close>, the positions pandas'
  \<^verbatim>\<open>sample\<close> takes. Its contract: for \<open>n \<le> pop\<close> it gives \<open>n\<close> distinct positions below
  \<open>pop\<close>.
\<close>

type_synonym rng = "nat \<Rightarrow> nat \<Rightarrow> nat \<Rightarrow> nat list"

definition choice_ok :: "rng \<Rightarrow> bool" where
  "choice_ok choice \<longleftrightarrow>
     (\<forall>seed pop n. n \<le> pop \<longrightarrow>
        length (choice seed pop n) = n \<and> distinct (choice seed pop n) \<and>
        list_all (\<lambda>p. p < pop) (choice seed pop n))"

text \<open>
  \<^verbatim>\<open>x.sample(n=n, random_state=seed, replace=False)\<close> on the rows \<open>x\<close> of one group:
  \<^verbatim>\<open>RandomState\<close> refuses a seed outside \<open>0 .. 2^32 - 1\<close> and \<^verbatim>\<open>sample\<close> a negative \<open>n\<close>,
  each with \<^verbatim>\<open>ValueError\<close>; the rows at the drawn positions are taken in the order drawn
  (\<^verbatim>\<open>take\<close> raises \<^verbatim>\<open>IndexError\<close> for a position out of range).
\<close>

definition sample_rows :: "rng \<Rightarrow> int \<Rightarrow> int \<Rightarrow> 'b list \<Rightarrow> error + 'b list" where
  "sample_rows choice seed n x =
     (if seed < 0 \<or> 2 ^ 32 \<le> seed then Inl ValueError
      else if n < 0 then Inl ValueError
      else let locs = choice (nat seed) (length x) (nat n)
           in if list_all (\<lambda>p. p < length x) locs then Inr (map (\<lambda>p. x ! p) locs)
              else Inl IndexError)"

text \<open>Lines 225-229: the feedback of every pair of a user and an item, users outermost.\<close>

definition user_item_feedback ::
  "'a list \<Rightarrow> 'a list \<Rightarrow> ('a \<times> 'a) list \<Rightarrow> ('a \<times> 'a \<times> int) list" where
  "user_item_feedback users items user_item_tuples =
     concat (map (\<lambda>user. map (\<lambda>item.
         (user, item, if (user, item) \<in> set user_item_tuples then 1 else 0)) items) users)"

text \<open>
  Lines 240-248, \<^verbatim>\<open>df_neg.groupby(col_user).apply(...)\<close>: the groups are the rows of one
  user each, in their order; they are visited in ascending order of the user, each is
  sampled with \<open>n = min(number_neg_per_pos, len(x))\<close>, and the samples are concatenated.
\<close>

definition group_keys :: "('a::linorder \<times> 'a \<times> int) list \<Rightarrow> 'a list" where
  "group_keys df_neg = sort (remdups (map fst df_neg))"

definition group_rows :: "('a \<times> 'a \<times> int) list \<Rightarrow> 'a \<Rightarrow> ('a \<times> 'a \<times> int) list" where
  "group_rows df_neg k = filter (\<lambda>(u, i, r). u = k) df_neg"

definition groupby_sample ::
  "rng \<Rightarrow> int \<Rightarrow> int \<Rightarrow> ('a::linorder \<times> 'a \<times> int) list \<Rightarrow> error + ('a \<times> 'a \<times> int) list" where
  "groupby_sample choice seed number_neg_per_pos df_neg =
     (case collect (map (\<lambda>k. sample_rows choice seed
                               (min number_neg_per_pos (int (length (group_rows df_neg k))))
                               (group_rows df_neg k))
                        (group_keys df_neg)) of
        Inl e \<Rightarrow> Inl e
      | Inr samples \<Rightarrow> Inr (concat samples))"

text \<open>
  \<^verbatim>\<open>negative_feedback_sampler\<close>. A missing user or item column raises \<^verbatim>\<open>ValueError\<close>
  (lines 212-216). \<^verbatim>\<open>unique()\<close> lists the distinct values of a column in the order of
  their first occurrence. When two of the three labels of the result coincide, pandas
  cannot group or sort by the doubled label and raises \<^verbatim>\<open>ValueError\<close>. The result is
  sorted by (user, item).
\<close>

definition negative_feedback_sampler ::
  "rng \<Rightarrow> ('a::linorder) dataframe \<Rightarrow> string \<Rightarrow> string \<Rightarrow> int \<Rightarrow> int \<Rightarrow>
   error + 'a feedback_frame" where
  "negative_feedback_sampler choice df col_user col_item number_neg_per_pos seed =
     (case index_of col_user (columns df) of
        None \<Rightarrow> Inl ValueError
      | Some ju \<Rightarrow>
          (case index_of col_item (columns df) of
             None \<Rightarrow> Inl ValueError
           | Some ji \<Rightarrow>
               if \<not> distinct [col_user, col_item, ''rating''] then Inl ValueError
               else
                 let users = first_occurrences (column_values df ju);
                     items = first_occurrences (column_values df ji);
                     user_item_tuples = map (\<lambda>row. (row ! ju, row ! ji)) (rows df);
                     df_all = user_item_feedback users items user_item_tuples;
                     df_pos = filter (\<lambda>(u, i, r). r = 1) df_all;
                     df_neg = filter (\<lambda>(u, i, r). r = 0) df_all
                 in case groupby_sample choice seed number_neg_per_pos df_neg of
                      Inl e \<Rightarrow> Inl e
                    | Inr df_neg_sample \<Rightarrow>
                        Inr \<lparr>fb_columns = [col_user, col_item, ''rating''],
                             fb_rows = sort_key (\<lambda>(u, i, r). (u, i))
                                         (df_pos @ df_neg_sample)\<rparr>))"

subsection \<open>Example inputs\<close>

text \<open>
  Two generators that keep the contract: the first \<open>n\<close> positions, and the last \<open>n\<close>
  positions, whatever the seed. Any generator draws one of the two positions of a group of
  two rows when one row is asked for.
\<close>

definition first_positions :: rng where
  "first_positions seed pop n = [0..<n]"

definition last_positions :: rng where
  "last_positions seed pop n = map (\<lambda>k. pop - 1 - k) [0..<n]"



definition df_repeated :: "int dataframe" where
  "df_repeated = \<lparr>columns = [''userID'', ''itemID'', ''rating''],
              dtypes = [DInteger, DInteger, DInteger],
              rows = [[1, 1, 5], [2, 2, 4], [1, 1, 3], [2, 1, 5]]\<rparr>"

subsection \<open>The derived sets and the labelled pairs, as the specification words them\<close>

text \<open>
  \<open>observed\<close> is the set S of observed pairs; \<open>pos_block\<close> and \<open>neg_block\<close> are, for one
  user, the observed pairs with label 1 and the unobserved pairs with label 0, the items in
  the given order.
\<close>

definition observed :: "'a dataframe \<Rightarrow> nat \<Rightarrow> nat \<Rightarrow> ('a \<times> 'a) set" where
  "observed df ju ji = set (map (\<lambda>row. (row ! ju, row ! ji)) (rows df))"

definition pos_block :: "('a \<times> 'a) set \<Rightarrow> 'a list \<Rightarrow> 'a \<Rightarrow> ('a \<times> 'a \<times> int) list" where
  "pos_block S items u = map (\<lambda>i. (u, i, 1)) (filter (\<lambda>i. (u, i) \<in> S) items)"

definition neg_block :: "('a \<times> 'a) set \<Rightarrow> 'a list \<Rightarrow> 'a \<Rightarrow> ('a \<times> 'a \<times> int) list" where
  "neg_block S items u = map (\<lambda>i. (u, i, 0)) (filter (\<lambda>i. (u, i) \<notin> S) items)"

text \<open>
  The rows drawn from a group \<open>x\<close> when the seed is accepted and \<open>0 \<le> n\<close>: the rows at the
  positions the generator gives for a population of \<open>length x\<close> and a sample of
  \<open>min n (length x)\<close>.
\<close>

definition drawn :: "rng \<Rightarrow> int \<Rightarrow> int \<Rightarrow> 'b list \<Rightarrow> 'b list" where
  "drawn choice seed n x =
     map (\<lambda>p. x ! p) (choice (nat seed) (length x) (min (nat n) (length x)))"



section \<open>Properties of libffm\_converter\<close>

subsection \<open>First occurrences\<close>

lemma set_fold_note_key: "set (fold note_key xs ks) = set ks \<union> set xs"
  by (induction xs arbitrary: ks) (auto simp: note_key_def)

lemma distinct_fold_note_key: "distinct ks \<Longrightarrow> distinct (fold note_key xs ks)"
  by (induction xs arbitrary: ks) (auto simp: note_key_def)

lemma set_first_occurrences: "set (first_occurrences xs) = set xs"
  by (simp add: first_occurrences_def set_fold_note_key)

lemma distinct_first_occurrences: "distinct (first_occurrences xs)"
  by (simp add: first_occurrences_def distinct_fold_note_key)

subsection \<open>The dictionary numbers the first occurrences\<close>








lemma index_of_Some: "index_of c cs = Some j \<Longrightarrow> j < length cs \<and> cs ! j = c"
proof (induction cs arbitrary: j)
  case Nil
  then show ?case by simp
next
  case (Cons x xs)
  then show ?case
    by (cases "x = c") auto
qed

lemma index_of_None: "(index_of c cs = None) = (c \<notin> set cs)"
  by (induction cs) auto





text \<open>
  C1: on the table of the docstring, with label column \<^verbatim>\<open>rating\<close>, the converter
  returns the table \<open>df_out\<close>: label column first, the rows in their order, and the rows
  print as the five lines of the specification.
\<close>

theorem libffm_converter_example:
  "libffm_converter df_feature ''rating'' = Inr df_out \<and>
   savetxt_lines df_out =
     [''1 1:1:1 2:2:3 3:3:1.0 4:4:1'',
      ''0 1:2:1 2:2:4 3:3:2.0 4:5:1'',
      ''0 1:3:1 2:2:5 3:3:3.0 4:6:1'',
      ''1 1:3:1 2:2:6 3:3:4.0 4:7:1'',
      ''1 1:3:1 2:2:7 3:3:5.0 4:8:1'']"
  by code_simp

subsection \<open>The type check\<close>








section \<open>Properties of filter\_by\<close>

lemma collect_Inr_map: "collect (map (\<lambda>x. Inr (f x)) xs) = Inr (map f xs)"
  by (induction xs) auto

lemma key_positions_present:
  assumes "set cols \<subseteq> set (columns df)"
  shows "key_positions df cols = Inr (map (\<lambda>c. the (index_of c (columns df))) cols)"
proof -
  have "map (\<lambda>c. case index_of c (columns df) of None \<Rightarrow> Inl KeyError | Some j \<Rightarrow> Inr j) cols =
        map (\<lambda>c. Inr (the (index_of c (columns df)))) cols"
  proof (rule map_cong)
    fix c
    assume "c \<in> set cols"
    then have "index_of c (columns df) \<noteq> None"
      using assms by (auto simp: index_of_None)
    then show "(case index_of c (columns df) of None \<Rightarrow> Inl KeyError | Some j \<Rightarrow> Inr j) =
               Inr (the (index_of c (columns df)))"
      by auto
  qed simp
  then show ?thesis
    unfolding key_positions_def by (simp only: collect_Inr_map)
qed

lemma set_index_keys_present:
  assumes "cols \<noteq> []" and "set cols \<subseteq> set (columns df)"
  shows "set_index_keys df cols =
         Inr (map (\<lambda>r. map (\<lambda>j. r ! j) (map (\<lambda>c. the (index_of c (columns df))) cols)) (rows df))"
  using assms by (simp add: set_index_keys_def key_positions_present)

lemma set_index_keys_length:
  "set_index_keys df cols = Inr ks \<Longrightarrow> length ks = length (rows df)"
  by (auto simp: set_index_keys_def split: if_splits sum.splits)

lemma filter_zip_all:
  assumes "length rs = length ks" and "\<And>k. k \<in> set ks \<Longrightarrow> P k"
  shows "map fst (filter (\<lambda>(r, k). P k) (zip rs ks)) = rs"
  using assms by (induction rs ks rule: list_induct2) auto

lemma filter_zip_none:
  assumes "\<And>k. k \<in> set ks \<Longrightarrow> \<not> P k"
  shows "filter (\<lambda>(r, k). P k) (zip rs ks) = []"
proof -
  have "\<And>x. x \<in> set (zip rs ks) \<Longrightarrow> \<not> (case x of (r, k) \<Rightarrow> P k)"
    using assms by (auto dest: set_zip_rightD)
  then show ?thesis
    by (simp add: filter_empty_conv)
qed

lemma filter_by_same_keys:
  assumes "set_index_keys f cols = Inr ks" and "set_index_keys f' cols = Inr ks'"
    and "set ks = set ks'"
  shows "filter_by df f cols = filter_by df f' cols"
  using assms by (simp add: filter_by_def split: sum.splits)

text \<open>
  C9: with key columns that both tables have, filtering a table by itself leaves no row;
  filtering by a table without rows returns the source table as it is; and the result
  depends on the filter table only through the set of its keys, so a key that occurs
  several times in the filter table has no further effect.
\<close>

theorem filter_by_self_empty_duplicates:
  "(cols \<noteq> [] \<and> set cols \<subseteq> set (columns df) \<longrightarrow>
      filter_by df df cols = Inr (df\<lparr>rows := []\<rparr>)) \<and>
   (cols \<noteq> [] \<and> set cols \<subseteq> set (columns df) \<and> set cols \<subseteq> set (columns f) \<and> rows f = [] \<longrightarrow>
      filter_by df f cols = Inr df) \<and>
   (set_index_keys g cols = Inr ks \<and> set_index_keys g' cols = Inr ks' \<and> set ks = set ks' \<longrightarrow>
      filter_by src g cols = filter_by src g' cols)"
proof (intro conjI impI)
  assume a: "cols \<noteq> [] \<and> set cols \<subseteq> set (columns df)"
  then obtain ks where ks: "set_index_keys df cols = Inr ks"
    using set_index_keys_present by blast
  have "filter (\<lambda>(r, k). k \<notin> set ks) (zip (rows df) ks) = []"
    by (rule filter_zip_none) simp
  then show "filter_by df df cols = Inr (df\<lparr>rows := []\<rparr>)"
    using ks by (simp add: filter_by_def)
next
  assume a: "cols \<noteq> [] \<and> set cols \<subseteq> set (columns df) \<and> set cols \<subseteq> set (columns f) \<and> rows f = []"
  then obtain ks where ks: "set_index_keys df cols = Inr ks"
    using set_index_keys_present by blast
  from a obtain fks where fks: "set_index_keys f cols = Inr fks"
    using set_index_keys_present by blast
  have "length fks = 0"
    using set_index_keys_length [OF fks] a by simp
  then have empty: "fks = []"
    by simp
  have "map fst (filter (\<lambda>(r, k). k \<notin> set fks) (zip (rows df) ks)) = rows df"
    using set_index_keys_length [OF ks] empty by (intro filter_zip_all) auto
  then show "filter_by df f cols = Inr df"
    using ks fks by (simp add: filter_by_def)
next
  assume "set_index_keys g cols = Inr ks \<and> set_index_keys g' cols = Inr ks' \<and> set ks = set ks'"
  then show "filter_by src g cols = filter_by src g' cols"
    using filter_by_same_keys by blast
qed

theorem filter_by_self_empty_duplicates_witness:
  "filter_by seen2 seen2 [''userID'', ''itemID''] = Inr (seen2\<lparr>rows := []\<rparr>) \<and>
   filter_by seen2 (seen2\<lparr>rows := []\<rparr>) [''userID'', ''itemID''] = Inr seen2 \<and>
   filter_by (cross_table users2 items3) seen2 [''userID'', ''itemID''] =
     filter_by (cross_table users2 items3) (seen2\<lparr>rows := [[1, 10], [2, 30]]\<rparr>)
       [''userID'', ''itemID'']"
proof -
  have k1: "set_index_keys seen2 [''userID'', ''itemID''] = Inr [[1, 10], [2, 30], [1, 10]]"
    by (simp add: set_index_keys_def key_positions_def seen2_def)
  have k2: "set_index_keys (seen2\<lparr>rows := [[1, 10], [2, 30]]\<rparr>) [''userID'', ''itemID''] =
            Inr [[1, 10], [2, 30]]"
    by (simp add: set_index_keys_def key_positions_def seen2_def)
  have s: "set [[1, 10], [2, 30], [1, 10]] = set [[1, 10], [2, 30 :: int]]"
    by auto
  show ?thesis
    using filter_by_self_empty_duplicates
      [where cols = "[''userID'', ''itemID'']" and df = seen2 and f = "seen2\<lparr>rows := []\<rparr>"
         and g = seen2 and ks = "[[1, 10], [2, 30], [1, 10]]"
         and g' = "seen2\<lparr>rows := [[1, 10], [2, 30]]\<rparr>" and ks' = "[[1, 10], [2, 30]]"
         and src = "cross_table users2 items3"]
      k1 k2 s
    by (simp add: seen2_def)
qed

section \<open>Properties of user\_item\_pairs\<close>

subsection \<open>Columns and positions\<close>

lemma index_of_append:
  "c \<notin> set xs \<Longrightarrow>
   index_of c (xs @ ys) = (case index_of c ys of None \<Rightarrow> None | Some j \<Rightarrow> Some (length xs + j))"
  by (induction xs) (auto split: option.splits)

lemma index_of_snoc_new: "c \<notin> set xs \<Longrightarrow> index_of c (xs @ [c]) = Some (length xs)"
  by (simp add: index_of_append)

lemma index_of_middle: "c \<notin> set xs \<Longrightarrow> index_of c (xs @ c # ys) = Some (length xs)"
  by (simp add: index_of_append)

lemma remove_nth_snoc: "length xs = n \<Longrightarrow> remove_nth n (xs @ [x]) = xs"
  by (simp add: remove_nth_def)

lemma remove_nth_middle: "length xs = n \<Longrightarrow> remove_nth n (xs @ x # ys) = xs @ ys"
  by (simp add: remove_nth_def)

lemma wf_df_row_length: "wf_df df \<Longrightarrow> r \<in> set (rows df) \<Longrightarrow> length r = length (columns df)"
  by (simp add: wf_df_def list_all_iff)

lemma dataframe_eqI:
  "columns a = columns b \<Longrightarrow> dtypes a = dtypes b \<Longrightarrow> rows a = rows b \<Longrightarrow> a = (b :: 'a dataframe)"
  by simp

lemma suffixed_not_key:
  "l \<noteq> ''key'' \<Longrightarrow> suffix_overlap ''key'' others ''_x'' l \<noteq> ''key''"
  "l \<noteq> ''key'' \<Longrightarrow> suffix_overlap ''key'' others ''_y'' l \<noteq> ''key''"
  by (auto simp: suffix_overlap_def append_eq_Cons_conv)

lemma suffix_overlap_snoc_key:
  "suffix_overlap ''key'' (cs @ [''key'']) sfx l = suffix_overlap ''key'' cs sfx l"
  by (auto simp: suffix_overlap_def)

lemma suffix_overlap_key: "suffix_overlap c others sfx c = c"
  by (simp add: suffix_overlap_def)

subsection \<open>Tables without a column named key\<close>

lemma assign_scalar_new:
  "c \<notin> set (columns df) \<Longrightarrow>
   assign_scalar df c t v =
     df\<lparr>columns := columns df @ [c], dtypes := dtypes df @ [t],
        rows := map (\<lambda>r. r @ [v]) (rows df)\<rparr>"
  by (simp add: assign_scalar_def index_of_None [symmetric])

lemma drop_assign_new:
  assumes "wf_df df" and "c \<notin> set (columns df)"
  shows "drop_column (assign_scalar df c t v) c = Inr df"
proof -
  have len: "length (dtypes df) = length (columns df)"
    using assms by (simp add: wf_df_def)
  have "map (remove_nth (length (columns df))) (map (\<lambda>r. r @ [v]) (rows df)) = rows df"
    using wf_df_row_length [OF assms(1)] by (simp add: map_idI remove_nth_snoc)
  then show ?thesis
    using assms(2) len
    by (simp add: assign_scalar_new drop_column_def index_of_snoc_new remove_nth_snoc)
qed

lemma merge_rows_all_match:
  assumes "\<And>r. r \<in> set rs \<Longrightarrow> length r = n"
  shows "map (\<lambda>r. l @ remove_nth n r) (filter (\<lambda>r. r ! n = v) (map (\<lambda>r. r @ [v]) rs)) =
         map (\<lambda>r. l @ r) rs"
proof -
  have "filter (\<lambda>r. r ! n = v) (map (\<lambda>r. r @ [v]) rs) = map (\<lambda>r. r @ [v]) rs"
    using assms by (simp add: filter_id_conv nth_append)
  then show ?thesis
    using assms by (simp add: remove_nth_snoc)
qed

lemma merge_assign_new:
  assumes "wf_df u" and "wf_df i"
    and "''key'' \<notin> set (columns u)" and "''key'' \<notin> set (columns i)"
  shows "merge_on (assign_scalar u ''key'' t v) (assign_scalar i ''key'' t v) ''key'' =
         Inr \<lparr>columns = map (suffix_overlap ''key'' (columns i) ''_x'') (columns u) @
                         ''key'' # map (suffix_overlap ''key'' (columns u) ''_y'') (columns i),
              dtypes = dtypes u @ t # dtypes i,
              rows = cross_rows (map (\<lambda>r. r @ [v]) (rows u)) (rows i)\<rparr>"
proof -
  let ?nu = "length (columns u)" and ?ni = "length (columns i)"
  have leni: "length (dtypes i) = ?ni"
    using assms(2) by (simp add: wf_df_def)
  have rows: "concat (map (\<lambda>l. map (\<lambda>r. l @ remove_nth ?ni r)
                          (filter (\<lambda>r. r ! ?ni = l ! ?nu) (map (\<lambda>r. r @ [v]) (rows i))))
                  (map (\<lambda>r. r @ [v]) (rows u))) =
              cross_rows (map (\<lambda>r. r @ [v]) (rows u)) (rows i)"
    unfolding cross_rows_def
  proof (rule arg_cong [where f = concat], rule map_cong [OF refl])
    fix l
    assume "l \<in> set (map (\<lambda>r. r @ [v]) (rows u))"
    then have "l ! ?nu = v"
      using wf_df_row_length [OF assms(1)] by (auto simp: nth_append)
    then show "map (\<lambda>r. l @ remove_nth ?ni r)
                 (filter (\<lambda>r. r ! ?ni = l ! ?nu) (map (\<lambda>r. r @ [v]) (rows i))) =
               map (\<lambda>r. l @ r) (rows i)"
      using merge_rows_all_match [of "rows i" ?ni l v] wf_df_row_length [OF assms(2)]
      by simp
  qed
  show ?thesis
    using assms(3,4) leni rows
    by (simp add: merge_on_def assign_scalar_new index_of_snoc_new remove_nth_snoc
        suffix_overlap_snoc_key suffix_overlap_key)
qed

lemma drop_key_of_merge:
  assumes "wf_df u" and "''key'' \<notin> set (columns u)"
  shows "drop_column
           \<lparr>columns = map (suffix_overlap ''key'' (columns i) ''_x'') (columns u) @
                       ''key'' # map (suffix_overlap ''key'' (columns u) ''_y'') (columns i),
            dtypes = dtypes u @ t # dtypes i,
            rows = cross_rows (map (\<lambda>r. r @ [v]) (rows u)) (rows i)\<rparr> ''key'' =
         Inr (cross_table u i)"
proof -
  let ?nu = "length (columns u)"
  let ?xs = "map (suffix_overlap ''key'' (columns i) ''_x'') (columns u)"
  have notin: "''key'' \<notin> set ?xs"
    using assms(2) suffixed_not_key(1) by (auto simp: image_iff) metis
  have pos: "index_of ''key''
               (?xs @ ''key'' # map (suffix_overlap ''key'' (columns u) ''_y'') (columns i)) =
             Some ?nu"
    using index_of_middle [OF notin] by simp
  have lend: "length (dtypes u) = ?nu"
    using assms(1) by (simp add: wf_df_def)
  have "map (remove_nth ?nu) (cross_rows (map (\<lambda>r. r @ [v]) (rows u)) (rows i)) =
        cross_rows (rows u) (rows i)"
    using wf_df_row_length [OF assms(1)]
    by (simp add: cross_rows_def map_concat comp_def remove_nth_middle
        cong: map_cong)
  then show ?thesis
    by (simp add: drop_column_def pos cross_table_def remove_nth_middle lend)
qed

lemma all_pairs_no_key:
  assumes "user_df \<noteq> item_df"
    and "wf_df (h user_df)" and "wf_df (h item_df)"
    and "''key'' \<notin> set (columns (h user_df))" and "''key'' \<notin> set (columns (h item_df))"
  shows "all_pairs h user_df item_df = (Inr (cross_table (h user_df) (h item_df)), h)"
proof -
  let ?u = "h user_df" and ?i = "h item_df"
  let ?h2 = "h(user_df := assign_scalar ?u ''key'' DInteger 1,
               item_df := assign_scalar ?i ''key'' DInteger 1)"
  have restore: "?h2(user_df := ?u, item_df := ?i) = h"
    by (rule ext) simp
  show ?thesis
    unfolding all_pairs_def Let_def
    using assms(1) restore
    by (simp add: merge_assign_new [OF assms(2,3,4,5)]
        drop_assign_new [OF assms(2,4)] drop_assign_new [OF assms(3,5)]
        drop_key_of_merge [OF assms(2,4)])
qed

subsection \<open>The pairs of the cross join\<close>

lemma length_cross_rows: "length (cross_rows us its) = length us * length its"
  by (induction us) (simp_all add: cross_rows_def)

lemma cross_rows_pairs:
  assumes "\<forall>r\<in>set us. length r = n" and "ju < n"
  shows "map (\<lambda>r. (r ! ju, r ! (n + ji))) (cross_rows us its) =
         List.product (map (\<lambda>r. r ! ju) us) (map (\<lambda>r. r ! ji) its)"
  using assms(1)
proof (induction us)
  case Nil
  show ?case by (simp add: cross_rows_def)
next
  case (Cons u us)
  have "map (\<lambda>r. (r ! ju, r ! (n + ji))) (map (\<lambda>i. u @ i) its) =
        map (Pair (u ! ju)) (map (\<lambda>r. r ! ji) its)"
    using Cons.prems assms(2) by (simp add: nth_append)
  moreover have "map (\<lambda>r. (r ! ju, r ! (n + ji))) (cross_rows us its) =
        List.product (map (\<lambda>r. r ! ju) us) (map (\<lambda>r. r ! ji) its)"
    using Cons by simp
  ultimately show ?case
    by (simp add: cross_rows_def)
qed

lemma user_item_pairs_unfiltered:
  "user_item_pairs h user_df item_df user_col item_col None False sample_all =
   all_pairs h user_df item_df"
  by (simp add: user_item_pairs_def split: prod.splits sum.splits)

lemma wf_users2: "wf_df users2"
  by (simp add: wf_df_def users2_def)

lemma wf_items3: "wf_df items3"
  by (simp add: wf_df_def items3_def)

text \<open>
  The cross join of tables that have no column named \<^verbatim>\<open>key\<close>: for two distinct,
  well-formed tables without such a column, a user table with distinct ids in its column
  \<open>user_col\<close> and an item table with distinct ids in its column \<open>item_col\<close>, the call
  without a filter table and without shuffling returns the cross join and leaves the store
  as it was: the rows are the concatenations of one user row and one item row, there are
  n times m of them, no pair (user, item) occurs twice, and the pairs are exactly the cross
  product of the user ids and the item ids.
\<close>

theorem user_item_pairs_cross_product:
  assumes "user_df \<noteq> item_df"
    and "wf_df (h user_df)" and "wf_df (h item_df)"
    and "''key'' \<notin> set (columns (h user_df))" and "''key'' \<notin> set (columns (h item_df))"
    and "index_of user_col (columns (h user_df)) = Some ju"
    and "index_of item_col (columns (h item_df)) = Some ji"
    and "distinct (column_values (h user_df) ju)"
    and "distinct (column_values (h item_df) ji)"
  shows "\<exists>out. user_item_pairs h user_df item_df user_col item_col None False sample_all =
           (Inr out, h) \<and>
         out = cross_table (h user_df) (h item_df) \<and>
         rows out = cross_rows (rows (h user_df)) (rows (h item_df)) \<and>
         length (rows out) = length (rows (h user_df)) * length (rows (h item_df)) \<and>
         distinct (map (\<lambda>r. (r ! ju, r ! (length (columns (h user_df)) + ji))) (rows out)) \<and>
         set (map (\<lambda>r. (r ! ju, r ! (length (columns (h user_df)) + ji))) (rows out)) =
           set (column_values (h user_df) ju) \<times> set (column_values (h item_df) ji)"
proof -
  let ?u = "h user_df" and ?i = "h item_df"
  let ?out = "cross_table ?u ?i"
  have call: "user_item_pairs h user_df item_df user_col item_col None False sample_all =
              (Inr ?out, h)"
    unfolding user_item_pairs_unfiltered by (rule all_pairs_no_key [OF assms(1-5)])
  have rows: "rows ?out = cross_rows (rows ?u) (rows ?i)"
    by (simp add: cross_table_def)
  have ju: "ju < length (columns ?u)"
    using index_of_Some [OF assms(6)] by simp
  have len: "\<forall>r\<in>set (rows ?u). length r = length (columns ?u)"
    using wf_df_row_length [OF assms(2)] by blast
  have pairs: "map (\<lambda>r. (r ! ju, r ! (length (columns ?u) + ji))) (rows ?out) =
               List.product (column_values ?u ju) (column_values ?i ji)"
    unfolding rows column_values_def by (rule cross_rows_pairs [OF len ju])
  have d: "distinct (map (\<lambda>r. (r ! ju, r ! (length (columns ?u) + ji))) (rows ?out))"
    unfolding pairs using assms(8,9) by (simp add: distinct_product)
  have s: "set (map (\<lambda>r. (r ! ju, r ! (length (columns ?u) + ji))) (rows ?out)) =
           set (column_values ?u ju) \<times> set (column_values ?i ji)"
    unfolding pairs by simp
  have l: "length (rows ?out) = length (rows ?u) * length (rows ?i)"
    by (simp add: rows length_cross_rows)
  show ?thesis
    using call rows l d s by blast
qed

theorem user_item_pairs_cross_product_witness:
  "user_item_pairs (heap2 users2 items3) 0 1 ''userID'' ''itemID'' None False id =
     (Inr pairs23, heap2 users2 items3) \<and>
   length (rows pairs23) = 2 * 3 \<and>
   distinct (map (\<lambda>r. (r ! 0, r ! 2)) (rows pairs23)) \<and>
   set (map (\<lambda>r. (r ! 0, r ! 2)) (rows pairs23)) = {1, 2} \<times> {10, 20, 30}"
proof -
  let ?h = "heap2 users2 items3"
  have u: "?h 0 = users2" and i: "?h 1 = items3"
    by (simp_all add: heap2_def)
  have c: "cross_table users2 items3 = pairs23"
    by (simp add: cross_table_def cross_rows_def users2_def items3_def pairs23_def
        suffix_overlap_def)
  have ne: "(0::nat) \<noteq> 1"
    by simp
  have wfu: "wf_df (?h 0)" and wfi: "wf_df (?h 1)"
    unfolding u i by (rule wf_users2, rule wf_items3)
  have nku: "''key'' \<notin> set (columns (?h 0))" and nki: "''key'' \<notin> set (columns (?h 1))"
    unfolding u i by (simp_all add: users2_def items3_def)
  have iu: "index_of ''userID'' (columns (?h 0)) = Some 0"
    and ii: "index_of ''itemID'' (columns (?h 1)) = Some 0"
    unfolding u i by (simp_all add: users2_def items3_def)
  have du: "distinct (column_values (?h 0) 0)" and di: "distinct (column_values (?h 1) 0)"
    unfolding u i by (simp_all add: users2_def items3_def column_values_def)
  have "user_item_pairs ?h 0 1 ''userID'' ''itemID'' None False id = (Inr pairs23, ?h)"
    using user_item_pairs_cross_product [OF ne wfu wfi nku nki iu ii du di, of id]
    unfolding u i c by auto
  moreover have "set (map (\<lambda>r. (r ! 0, r ! 2)) (rows pairs23)) = {1, 2} \<times> {10, 20, 30}"
    by (auto simp: pairs23_def)
  ultimately show ?thesis
    by (simp add: pairs23_def)
qed

text \<open>
  C5 says that the call without a filter table returns n times m rows, each the
  concatenation of one user row's columns and one item row's columns. On a user table with
  distinct ids that has a column named \<^verbatim>\<open>key\<close> the code returns the n times m rows without
  the user row's cell of that column (here 7 and 8): line 37 overwrites the column with
  ones and line 43 drops it from the join.
\<close>

theorem user_item_pairs_key_column_lost:
  "fst (user_item_pairs (heap2 users_with_key items3) 0 1 ''userID'' ''itemID'' None False id) =
     Inr pairs_without_key \<and>
   rows pairs_without_key = [[1, 10], [1, 20], [1, 30], [2, 10], [2, 20], [2, 30]] \<and>
   cross_rows (rows users_with_key) (rows items3) =
     [[1, 7, 10], [1, 7, 20], [1, 7, 30], [2, 8, 10], [2, 8, 20], [2, 8, 30]]"
  by code_simp

text \<open>
  C7 says that both input tables are unchanged after the call. After the same call the
  caller's user table has lost its own column \<^verbatim>\<open>key\<close>: line 37 overwrote it and line 41
  dropped it in place. The item table is unchanged.
\<close>

theorem user_item_pairs_drops_callers_key_column:
  "snd (user_item_pairs (heap2 users_with_key items3) 0 1 ''userID'' ''itemID'' None False id) 0 =
     \<lparr>columns = [''userID''], dtypes = [DInteger], rows = [[1], [2]]\<rparr> \<and>
   columns users_with_key = [''userID'', ''key''] \<and>
   rows users_with_key = [[1, 7], [2, 8]] \<and>
   snd (user_item_pairs (heap2 users_with_key items3) 0 1 ''userID'' ''itemID'' None False id) 1 =
     items3"
  by code_simp

text \<open>
  For two distinct tables without a column \<^verbatim>\<open>key\<close> the call leaves the store as it was,
  with or without a filter table and shuffling.
\<close>

lemma user_item_pairs_frame:
  assumes "user_df \<noteq> item_df"
    and "wf_df (h user_df)" and "wf_df (h item_df)"
    and "''key'' \<notin> set (columns (h user_df))" and "''key'' \<notin> set (columns (h item_df))"
  shows "snd (user_item_pairs h user_df item_df user_col item_col filter_df shuffle sample_all) = h"
  by (simp add: user_item_pairs_def all_pairs_no_key [OF assms] split: sum.splits)

subsection \<open>The number of rows of the join, for any two well-formed tables\<close>

lemma wf_df_assign_scalar: "wf_df df \<Longrightarrow> wf_df (assign_scalar df c t v)"
  by (auto simp: wf_df_def assign_scalar_def list_all_iff index_of_None split: option.splits)

lemma length_rows_assign_scalar: "length (rows (assign_scalar df c t v)) = length (rows df)"
  by (simp add: assign_scalar_def split: option.splits)

lemma assign_scalar_cells:
  assumes "wf_df df"
  shows "\<exists>j. index_of c (columns (assign_scalar df c t v)) = Some j \<and>
             (\<forall>r\<in>set (rows (assign_scalar df c t v)). r ! j = v)"
proof (cases "index_of c (columns df)")
  case None
  then have new: "c \<notin> set (columns df)"
    by (simp add: index_of_None)
  have "\<forall>r\<in>set (rows df). (r @ [v]) ! length (columns df) = v"
    using wf_df_row_length [OF assms] by (simp add: nth_append)
  then show ?thesis
    using new by (simp add: assign_scalar_new index_of_snoc_new)
next
  case (Some j)
  then have "j < length (columns df)"
    using index_of_Some by blast
  then have "\<forall>r\<in>set (rows df). r[j := v] ! j = v"
    using wf_df_row_length [OF assms] by simp
  then show ?thesis
    using Some by (simp add: assign_scalar_def)
qed

lemma length_concat_const:
  assumes "\<forall>l\<in>set ls. length (f l) = k"
  shows "length (concat (map f ls)) = length ls * k"
  using assms by (induction ls) simp_all

lemma merge_on_length:
  assumes "index_of c (columns a) = Some ja" and "index_of c (columns b) = Some jb"
    and "\<forall>r\<in>set (rows a). r ! ja = v" and "\<forall>r\<in>set (rows b). r ! jb = v"
  shows "\<exists>m. merge_on a b c = Inr m \<and> length (rows m) = length (rows a) * length (rows b)"
proof -
  have "\<forall>l\<in>set (rows a).
          length (map (\<lambda>r. l @ remove_nth jb r) (filter (\<lambda>r. r ! jb = l ! ja) (rows b))) =
          length (rows b)"
    using assms(3,4) by (simp add: filter_id_conv)
  then have "length (concat (map (\<lambda>l. map (\<lambda>r. l @ remove_nth jb r)
                                     (filter (\<lambda>r. r ! jb = l ! ja) (rows b))) (rows a))) =
             length (rows a) * length (rows b)"
    by (rule length_concat_const)
  then show ?thesis
    using assms(1,2) by (simp add: merge_on_def)
qed

lemma drop_column_rows: "drop_column df c = Inr d \<Longrightarrow> length (rows d) = length (rows df)"
  by (auto simp: drop_column_def split: option.splits)

lemma all_pairs_length:
  assumes "all_pairs h user_df item_df = (Inr users_items, h')"
    and "wf_df (h user_df)" and "wf_df (h item_df)"
  shows "length (rows users_items) = length (rows (h user_df)) * length (rows (h item_df))"
proof -
  let ?h1 = "h(user_df := assign_scalar (h user_df) ''key'' DInteger 1)"
  let ?h2 = "?h1(item_df := assign_scalar (?h1 item_df) ''key'' DInteger 1)"
  have wf1: "wf_df (?h1 user_df)" "wf_df (?h1 item_df)"
    using assms(2,3) by (auto simp: wf_df_assign_scalar)
  have a: "\<exists>j. index_of ''key'' (columns (?h2 user_df)) = Some j \<and>
               (\<forall>r\<in>set (rows (?h2 user_df)). r ! j = 1)"
    using assign_scalar_cells [OF wf1(1)] assign_scalar_cells [OF assms(2)]
    by (cases "user_df = item_df") simp_all
  have b: "\<exists>j. index_of ''key'' (columns (?h2 item_df)) = Some j \<and>
               (\<forall>r\<in>set (rows (?h2 item_df)). r ! j = 1)"
    using assign_scalar_cells [OF wf1(2)] by simp
  have la: "length (rows (?h2 user_df)) = length (rows (h user_df))"
    by (simp add: length_rows_assign_scalar)
  have lb: "length (rows (?h2 item_df)) = length (rows (h item_df))"
    by (auto simp: length_rows_assign_scalar)
  from a obtain ja where ja: "index_of ''key'' (columns (?h2 user_df)) = Some ja"
    and ca: "\<forall>r\<in>set (rows (?h2 user_df)). r ! ja = 1"
    by blast
  from b obtain jb where jb: "index_of ''key'' (columns (?h2 item_df)) = Some jb"
    and cb: "\<forall>r\<in>set (rows (?h2 item_df)). r ! jb = 1"
    by blast
  obtain m where m: "merge_on (?h2 user_df) (?h2 item_df) ''key'' = Inr m"
    and lm: "length (rows m) = length (rows (?h2 user_df)) * length (rows (?h2 item_df))"
    using merge_on_length [OF ja jb ca cb] by blast
  have "drop_column m ''key'' = Inr users_items"
    using assms(1) m unfolding all_pairs_def Let_def
    by (auto split: sum.splits)
  then have "length (rows users_items) = length (rows m)"
    by (rule drop_column_rows)
  then show ?thesis
    using lm la lb by simp
qed

subsection \<open>Filtering the pairs\<close>

lemma set_index_keys_cases:
  assumes "set_index_keys df cols = Inr ks"
  obtains js where "cols \<noteq> []" and "key_positions df cols = Inr js"
    and "ks = map (\<lambda>r. map (\<lambda>j. r ! j) js) (rows df)"
  using assms by (auto simp: set_index_keys_def split: if_splits sum.splits)

lemma kept_keys:
  "map (f \<circ> fst) (filter (\<lambda>(r, k). P k) (zip rs (map f rs))) = filter P (map f rs)"
  by (induction rs) auto

lemma filter_by_keys:
  assumes "set_index_keys df cols = Inr ks" and "set_index_keys f cols = Inr fks"
  shows "\<exists>out. filter_by df f cols = Inr out \<and> columns out = columns df \<and>
           set_index_keys out cols = Inr (filter (\<lambda>k. k \<notin> set fks) ks)"
proof -
  obtain js where ne: "cols \<noteq> []" and js: "key_positions df cols = Inr js"
    and ks: "ks = map (\<lambda>r. map (\<lambda>j. r ! j) js) (rows df)"
    using assms(1) by (rule set_index_keys_cases)
  let ?out = "df\<lparr>rows := map fst (filter (\<lambda>(r, k). k \<notin> set fks) (zip (rows df) ks))\<rparr>"
  have "filter_by df f cols = Inr ?out"
    using assms by (simp add: filter_by_def)
  moreover have "key_positions ?out cols = Inr js"
    using js by (simp add: key_positions_def)
  then have "set_index_keys ?out cols = Inr (filter (\<lambda>k. k \<notin> set fks) ks)"
    using ne unfolding ks by (simp add: set_index_keys_def kept_keys)
  ultimately show ?thesis
    by simp
qed

lemma filter_by_Inr:
  assumes "filter_by df f cols = Inr out"
  shows "\<exists>ks fks. set_index_keys df cols = Inr ks \<and> set_index_keys f cols = Inr fks"
  using assms by (auto simp: filter_by_def split: sum.splits)

lemma reordered_keys:
  assumes "set_index_keys df cols = Inr ks" and "mset rs = mset (rows df)"
  shows "\<exists>ks'. set_index_keys (df\<lparr>rows := rs\<rparr>) cols = Inr ks' \<and> mset ks' = mset ks"
proof -
  obtain js where ne: "cols \<noteq> []" and js: "key_positions df cols = Inr js"
    and ks: "ks = map (\<lambda>r. map (\<lambda>j. r ! j) js) (rows df)"
    using assms(1) by (rule set_index_keys_cases)
  have "key_positions (df\<lparr>rows := rs\<rparr>) cols = Inr js"
    using js by (simp add: key_positions_def)
  then have "set_index_keys (df\<lparr>rows := rs\<rparr>) cols = Inr (map (\<lambda>r. map (\<lambda>j. r ! j) js) rs)"
    using ne by (simp add: set_index_keys_def)
  moreover have "mset (map (\<lambda>r. map (\<lambda>j. r ! j) js) rs) = mset ks"
    unfolding ks using assms(2) by (metis mset_map)
  ultimately show ?thesis
    by blast
qed

lemma length_filter_not_in:
  assumes "distinct ks" and "F \<subseteq> set ks"
  shows "length (filter (\<lambda>k. k \<notin> F) ks) = length ks - card F"
proof -
  have "length (filter (\<lambda>k. k \<notin> F) ks) = card ({k. k \<notin> F} \<inter> set ks)"
    using assms(1) by (rule distinct_length_filter)
  also have "{k. k \<notin> F} \<inter> set ks = set ks - F"
    by auto
  also have "card (set ks - F) = card (set ks) - card F"
    using assms(2) by (simp add: card_Diff_subset finite_subset)
  finally show ?thesis
    using assms(1) by (simp add: distinct_card)
qed

lemma user_item_pairs_filtered_cases:
  assumes "user_item_pairs h user_df item_df user_col item_col (Some f) shuffle sample_all =
           (Inr out, h')"
  obtains users_items res where "all_pairs h user_df item_df = (Inr users_items, h')"
    and "filter_by users_items f [user_col, item_col] = Inr res"
    and "out = (if shuffle then res\<lparr>rows := sample_all (rows res)\<rparr> else res)"
  using assms by (auto simp: user_item_pairs_def split: prod.splits sum.splits)

lemma shuffled_keys:
  assumes "\<forall>xs. mset (sample_all xs) = mset xs"
    and "set_index_keys res cols = Inr ks"
  shows "\<exists>ks'. set_index_keys (if shuffle then res\<lparr>rows := sample_all (rows res)\<rparr> else res) cols =
                 Inr ks' \<and> mset ks' = mset ks"
proof (cases shuffle)
  case True
  then show ?thesis
    using reordered_keys [OF assms(2), of "sample_all (rows res)"] assms(1) by simp
next
  case False
  then show ?thesis
    using assms(2) by simp
qed

text \<open>
  C6. Whatever the tables are, a table that \<^verbatim>\<open>user_item_pairs\<close> returns when it is given
  a filter table has no row whose key (user, item) is a key of the filter table. And when
  the call without filter returns the cross join \<open>cross\<close> of two well-formed tables, the
  rows of \<open>cross\<close> have keys (user, item), no key twice (n distinct users and m distinct
  items), and the keys of the filter table all belong to the cross join, the call with the
  filter returns a table of n times m minus k rows, k being the number of distinct keys of
  the filter table. \<open>sample_all\<close>, the reordering drawn when \<open>shuffle\<close> is set, permutes
  the rows.
\<close>

theorem user_item_pairs_filter:
  assumes "\<forall>xs. mset (sample_all xs) = mset xs"
  shows "(\<forall>out h'.
            user_item_pairs h user_df item_df user_col item_col (Some f) shuffle sample_all =
              (Inr out, h') \<longrightarrow>
            (\<exists>oks fks. set_index_keys out [user_col, item_col] = Inr oks \<and>
                       set_index_keys f [user_col, item_col] = Inr fks \<and>
                       set oks \<inter> set fks = {})) \<and>
         (wf_df (h user_df) \<and> wf_df (h item_df) \<and>
          user_item_pairs h user_df item_df user_col item_col None False sample_all =
            (Inr cross, h'') \<and>
          set_index_keys cross [user_col, item_col] = Inr ks \<and> distinct ks \<and>
          set_index_keys f [user_col, item_col] = Inr fks' \<and> set fks' \<subseteq> set ks \<longrightarrow>
            (\<exists>out. user_item_pairs h user_df item_df user_col item_col (Some f) shuffle
                      sample_all = (Inr out, h'') \<and>
                   length (rows out) =
                     length (rows (h user_df)) * length (rows (h item_df)) - card (set fks')))"
proof (intro conjI allI impI)
  fix out h'
  assume call: "user_item_pairs h user_df item_df user_col item_col (Some f) shuffle sample_all =
                (Inr out, h')"
  then obtain users_items res where
    fb: "filter_by users_items f [user_col, item_col] = Inr res"
    and out: "out = (if shuffle then res\<lparr>rows := sample_all (rows res)\<rparr> else res)"
    by (rule user_item_pairs_filtered_cases)
  obtain ks0 fks where ks0: "set_index_keys users_items [user_col, item_col] = Inr ks0"
    and fks: "set_index_keys f [user_col, item_col] = Inr fks"
    using filter_by_Inr [OF fb] by blast
  have "set_index_keys res [user_col, item_col] = Inr (filter (\<lambda>k. k \<notin> set fks) ks0)"
    using filter_by_keys [OF ks0 fks] fb by auto
  then obtain oks where oks: "set_index_keys out [user_col, item_col] = Inr oks"
    and m: "mset oks = mset (filter (\<lambda>k. k \<notin> set fks) ks0)"
    unfolding out using shuffled_keys [OF assms] by blast
  have "set oks = set (filter (\<lambda>k. k \<notin> set fks) ks0)"
    using m by (rule mset_eq_setD)
  then have "set oks \<inter> set fks = {}"
    by auto
  with oks fks
  show "\<exists>oks fks. set_index_keys out [user_col, item_col] = Inr oks \<and>
                  set_index_keys f [user_col, item_col] = Inr fks \<and> set oks \<inter> set fks = {}"
    by blast
next
  assume a: "wf_df (h user_df) \<and> wf_df (h item_df) \<and>
          user_item_pairs h user_df item_df user_col item_col None False sample_all =
            (Inr cross, h'') \<and>
          set_index_keys cross [user_col, item_col] = Inr ks \<and> distinct ks \<and>
          set_index_keys f [user_col, item_col] = Inr fks' \<and> set fks' \<subseteq> set ks"
  then have ap: "all_pairs h user_df item_df = (Inr cross, h'')"
    by (simp add: user_item_pairs_unfiltered)
  have ks: "set_index_keys cross [user_col, item_col] = Inr ks"
    and fks: "set_index_keys f [user_col, item_col] = Inr fks'"
    using a by simp_all
  obtain res where fb: "filter_by cross f [user_col, item_col] = Inr res"
    and rk: "set_index_keys res [user_col, item_col] = Inr (filter (\<lambda>k. k \<notin> set fks') ks)"
    using filter_by_keys [OF ks fks] by blast
  let ?out = "if shuffle then res\<lparr>rows := sample_all (rows res)\<rparr> else res"
  have call: "user_item_pairs h user_df item_df user_col item_col (Some f) shuffle sample_all =
              (Inr ?out, h'')"
    using ap fb by (simp add: user_item_pairs_def)
  have "length (sample_all (rows res)) = length (rows res)"
    using assms by (metis size_mset)
  then have "length (rows ?out) = length (rows res)"
    by simp
  also have "\<dots> = length (filter (\<lambda>k. k \<notin> set fks') ks)"
    using set_index_keys_length [OF rk] by simp
  also have "\<dots> = length ks - card (set fks')"
    using a by (intro length_filter_not_in) simp_all
  also have "length ks = length (rows cross)"
    by (rule set_index_keys_length [OF ks])
  also have "\<dots> = length (rows (h user_df)) * length (rows (h item_df))"
    using all_pairs_length [OF ap] a by simp
  finally have "length (rows ?out) =
                length (rows (h user_df)) * length (rows (h item_df)) - card (set fks')" .
  with call
  show "\<exists>out. user_item_pairs h user_df item_df user_col item_col (Some f) shuffle
                 sample_all = (Inr out, h'') \<and>
              length (rows out) =
                length (rows (h user_df)) * length (rows (h item_df)) - card (set fks')"
    by blast
qed

lemma all_pairs_users2_items3:
  "all_pairs (heap2 users2 items3) 0 1 = (Inr pairs23, heap2 users2 items3)"
proof -
  let ?h = "heap2 users2 items3"
  have u: "?h 0 = users2" and i: "?h 1 = items3"
    by (simp_all add: heap2_def)
  have c: "cross_table users2 items3 = pairs23"
    by (simp add: cross_table_def cross_rows_def users2_def items3_def pairs23_def
        suffix_overlap_def)
  have ne: "(0::nat) \<noteq> 1"
    by simp
  have wfu: "wf_df (?h 0)" and wfi: "wf_df (?h 1)"
    unfolding u i by (rule wf_users2, rule wf_items3)
  have nku: "''key'' \<notin> set (columns (?h 0))" and nki: "''key'' \<notin> set (columns (?h 1))"
    unfolding u i by (simp_all add: users2_def items3_def)
  have "all_pairs ?h 0 1 = (Inr (cross_table (?h 0) (?h 1)), ?h)"
    by (rule all_pairs_no_key [OF ne wfu wfi nku nki])
  then show ?thesis
    by (simp only: u i c)
qed

theorem user_item_pairs_filter_witness:
  "\<exists>out oks fks.
     user_item_pairs (heap2 users2 items3) 0 1 ''userID'' ''itemID'' (Some seen2) False id =
       (Inr out, heap2 users2 items3) \<and>
     length (rows out) = 2 * 3 - 2 \<and>
     set_index_keys out [''userID'', ''itemID''] = Inr oks \<and>
     set_index_keys seen2 [''userID'', ''itemID''] = Inr fks \<and>
     set oks \<inter> set fks = {}"
proof -
  let ?h = "heap2 users2 items3"
  let ?ks = "[[1, 10], [1, 20], [1, 30], [2, 10], [2, 20], [2, 30 :: int]]"
  let ?fks = "[[1, 10], [2, 30], [1, 10 :: int]]"
  have perm: "\<forall>xs :: int list list. mset (id xs) = mset xs"
    by simp
  have u: "?h 0 = users2" and i: "?h 1 = items3"
    by (simp_all add: heap2_def)
  have cross: "user_item_pairs ?h 0 1 ''userID'' ''itemID'' None False id = (Inr pairs23, ?h)"
    by (simp only: user_item_pairs_unfiltered all_pairs_users2_items3)
  have ks: "set_index_keys pairs23 [''userID'', ''itemID''] = Inr ?ks"
    by (simp add: set_index_keys_def key_positions_def pairs23_def)
  have fks: "set_index_keys seen2 [''userID'', ''itemID''] = Inr ?fks"
    by (simp add: set_index_keys_def key_positions_def seen2_def)
  have d: "distinct ?ks"
    by simp
  have sub: "set ?fks \<subseteq> set ?ks"
    by simp
  have k: "card (set ?fks) = 2"
    unfolding card_set by simp
  have n: "length (rows (?h 0)) * length (rows (?h 1)) = 2 * 3"
    unfolding u i by (simp add: users2_def items3_def)
  note t = user_item_pairs_filter [OF perm, where h = ?h and user_df = 0 and item_df = 1
      and user_col = "''userID''" and item_col = "''itemID''" and f = seen2
      and shuffle = False and cross = pairs23 and h'' = ?h and ks = ?ks and fks' = ?fks]
  from t cross ks fks d sub obtain out where
    call: "user_item_pairs ?h 0 1 ''userID'' ''itemID'' (Some seen2) False id = (Inr out, ?h)"
    and len: "length (rows out) = length (rows (?h 0)) * length (rows (?h 1)) - card (set ?fks)"
    unfolding u i using wf_users2 wf_items3 by blast
  from t call obtain oks fks' where
    "set_index_keys out [''userID'', ''itemID''] = Inr oks"
    "set_index_keys seen2 [''userID'', ''itemID''] = Inr fks'"
    "set oks \<inter> set fks' = {}"
    by blast
  with call len show ?thesis
    unfolding k n by blast
qed


section \<open>Properties of negative\_feedback\_sampler\<close>

subsection \<open>Positive and negative rows\<close>

lemma filter_concat_map: "filter P (concat (map f xs)) = concat (map (\<lambda>x. filter P (f x)) xs)"
  by (induction xs) auto

lemma feedback_row_pos:
  "filter (\<lambda>(u, i, r). r = 1)
     (map (\<lambda>item. (user, item, if (user, item) \<in> S then 1 else (0::int))) items) =
   pos_block S items user"
  by (induction items) (auto simp: pos_block_def)

lemma feedback_row_neg:
  "filter (\<lambda>(u, i, r). r = 0)
     (map (\<lambda>item. (user, item, if (user, item) \<in> S then 1 else (0::int))) items) =
   neg_block S items user"
  by (induction items) (auto simp: neg_block_def)

lemma df_pos_blocks:
  "filter (\<lambda>(u, i, r). r = 1) (user_item_feedback users items ts) =
   concat (map (pos_block (set ts) items) users)"
  by (simp add: user_item_feedback_def filter_concat_map feedback_row_pos)

lemma df_neg_blocks:
  "filter (\<lambda>(u, i, r). r = 0) (user_item_feedback users items ts) =
   concat (map (neg_block (set ts) items) users)"
  by (simp add: user_item_feedback_def filter_concat_map feedback_row_neg)

lemma neg_block_user: "x \<in> set (neg_block S items u) \<Longrightarrow> fst x = u"
  by (auto simp: neg_block_def)

lemma pos_block_user: "x \<in> set (pos_block S items u) \<Longrightarrow> fst x = u"
  by (auto simp: pos_block_def)

lemma group_rows_fst: "group_rows xs k = filter (\<lambda>x. fst x = k) xs"
  unfolding group_rows_def by (rule filter_cong [OF refl]) auto

lemma filter_user_block:
  assumes "\<forall>x\<in>set xs. fst x = u"
  shows "filter (\<lambda>x. fst x = k) xs = (if u = k then xs else [])"
  using assms by (induction xs) auto

lemma filter_user_blocks:
  assumes "distinct us" and "\<forall>u\<in>set us. \<forall>x\<in>set (g u). fst x = u"
  shows "filter (\<lambda>x. fst x = k) (concat (map g us)) = (if k \<in> set us then g k else [])"
  using assms
proof (induction us)
  case Nil
  show ?case by simp
next
  case (Cons u us)
  have "filter (\<lambda>x. fst x = k) (g u) = (if u = k then g u else [])"
    using Cons.prems(2) by (intro filter_user_block) simp
  moreover have "filter (\<lambda>x. fst x = k) (concat (map g us)) =
                 (if k \<in> set us then g k else [])"
    using Cons by simp
  ultimately show ?case
    using Cons.prems(1) by auto
qed

lemma group_rows_blocks:
  assumes "distinct us"
  shows "group_rows (concat (map (neg_block S items) us)) k =
         (if k \<in> set us then neg_block S items k else [])"
  unfolding group_rows_fst
  using assms by (intro filter_user_blocks) (auto dest: neg_block_user)

lemma set_group_keys: "set (group_keys xs) = fst ` set xs"
  by (simp add: group_keys_def)


lemma group_keys_users:
  "k \<in> set (group_keys (concat (map (neg_block S items) us))) \<Longrightarrow> k \<in> set us"
  by (auto simp: set_group_keys dest: neg_block_user)

lemma group_keys_nonempty:
  assumes "distinct us"
  shows "(k \<in> set (group_keys (concat (map (neg_block S items) us)))) =
         (k \<in> set us \<and> neg_block S items k \<noteq> [])"
proof -
  have "(k \<in> set (group_keys (concat (map (neg_block S items) us)))) =
        (group_rows (concat (map (neg_block S items) us)) k \<noteq> [])"
    by (auto simp: set_group_keys group_rows_fst filter_empty_conv image_iff)
  then show ?thesis
    by (simp add: group_rows_blocks [OF assms])
qed


subsection \<open>Sampling\<close>

lemma collect_Inr: "collect xs = Inr vs \<Longrightarrow> xs = map Inr vs"
proof (induction xs arbitrary: vs)
  case Nil
  then show ?case by simp
next
  case (Cons x xs)
  then show ?case
    by (auto split: sum.splits)
qed

lemma sample_rows_subset: "sample_rows choice seed n x = Inr s \<Longrightarrow> set s \<subseteq> set x"
  by (auto simp: sample_rows_def Let_def list_all_iff split: if_splits)

lemma group_rows_subset: "set (group_rows xs k) \<subseteq> set xs"
  by (simp add: group_rows_fst)

lemma groupby_sample_cases:
  assumes "groupby_sample choice seed n neg = Inr ns"
  obtains samples where
    "map (\<lambda>k. sample_rows choice seed (min n (int (length (group_rows neg k))))
               (group_rows neg k)) (group_keys neg) = map Inr samples"
    and "ns = concat samples"
proof (cases "collect (map (\<lambda>k. sample_rows choice seed
                 (min n (int (length (group_rows neg k)))) (group_rows neg k)) (group_keys neg))")
  case (Inl e)
  with assms show ?thesis
    by (simp add: groupby_sample_def)
next
  case (Inr samples)
  then have "ns = concat samples"
    using assms by (simp add: groupby_sample_def)
  with collect_Inr [OF Inr] that show ?thesis
    by blast
qed

lemma groupby_sample_subset:
  assumes "groupby_sample choice seed n neg = Inr ns"
  shows "set ns \<subseteq> set neg"
proof -
  obtain samples where
    m: "map (\<lambda>k. sample_rows choice seed (min n (int (length (group_rows neg k))))
               (group_rows neg k)) (group_keys neg) = map Inr samples"
    and ns: "ns = concat samples"
    using assms by (rule groupby_sample_cases)
  have "set s \<subseteq> set neg" if "s \<in> set samples" for s
  proof -
    from that have "Inr s \<in> set (map Inr samples :: (error + _) list)"
      by simp
    then have "Inr s \<in> (\<lambda>k. sample_rows choice seed (min n (int (length (group_rows neg k))))
                 (group_rows neg k)) ` set (group_keys neg)"
      unfolding m [symmetric] by (simp only: set_map)
    then obtain k where k:
      "sample_rows choice seed (min n (int (length (group_rows neg k)))) (group_rows neg k) = Inr s"
      by (elim imageE) (rule that, erule sym)
    have "set s \<subseteq> set (group_rows neg k)"
      by (rule sample_rows_subset [OF k])
    also have "\<dots> \<subseteq> set neg"
      by (rule group_rows_subset)
    finally show ?thesis .
  qed
  then show ?thesis
    unfolding ns set_concat by blast
qed

lemma sample_rows_drawn:
  assumes "choice_ok choice" and "0 \<le> seed" and "seed < 2 ^ 32" and "0 \<le> n"
  shows "sample_rows choice seed (min n (int (length x))) x = Inr (drawn choice seed n x)"
proof -
  have n: "nat (min n (int (length x))) = min (nat n) (length x)"
    using assms(4) by simp
  have "list_all (\<lambda>p. p < length x) (choice (nat seed) (length x) (min (nat n) (length x)))"
    using assms(1) by (simp add: choice_ok_def)
  then show ?thesis
    using assms(2,3,4) by (simp add: sample_rows_def n drawn_def)
qed

lemma groupby_sample_drawn:
  assumes "choice_ok choice" and "0 \<le> seed" and "seed < 2 ^ 32" and "0 \<le> n"
  shows "groupby_sample choice seed n neg =
         Inr (concat (map (\<lambda>k. drawn choice seed n (group_rows neg k)) (group_keys neg)))"
  by (simp add: groupby_sample_def sample_rows_drawn [OF assms] collect_Inr_map)




subsection \<open>The rows of the result\<close>

lemma negative_feedback_sampler_blocks:
  assumes "index_of col_user (columns df) = Some ju"
    and "index_of col_item (columns df) = Some ji"
    and "distinct [col_user, col_item, ''rating'']"
  shows "negative_feedback_sampler choice df col_user col_item n seed =
         (case groupby_sample choice seed n
                 (concat (map (neg_block (observed df ju ji)
                                 (first_occurrences (column_values df ji)))
                              (first_occurrences (column_values df ju)))) of
            Inl e \<Rightarrow> Inl e
          | Inr ns \<Rightarrow>
              Inr \<lparr>fb_columns = [col_user, col_item, ''rating''],
                   fb_rows = sort_key (\<lambda>(u, i, r). (u, i))
                     (concat (map (pos_block (observed df ju ji)
                                     (first_occurrences (column_values df ji)))
                                  (first_occurrences (column_values df ju))) @ ns)\<rparr>)"
proof -
  let ?U = "first_occurrences (column_values df ju)"
  let ?I = "first_occurrences (column_values df ji)"
  let ?ts = "map (\<lambda>row. (row ! ju, row ! ji)) (rows df)"
  have pos: "filter (\<lambda>(u, i, r). r = 1) (user_item_feedback ?U ?I ?ts) =
             concat (map (pos_block (observed df ju ji) ?I) ?U)"
    unfolding observed_def by (rule df_pos_blocks)
  have neg: "filter (\<lambda>(u, i, r). r = 0) (user_item_feedback ?U ?I ?ts) =
             concat (map (neg_block (observed df ju ji) ?I) ?U)"
    unfolding observed_def by (rule df_neg_blocks)
  have "negative_feedback_sampler choice df col_user col_item n seed =
        (case groupby_sample choice seed n
                (filter (\<lambda>(u, i, r). r = 0) (user_item_feedback ?U ?I ?ts)) of
           Inl e \<Rightarrow> Inl e
         | Inr ns \<Rightarrow>
             Inr \<lparr>fb_columns = [col_user, col_item, ''rating''],
                  fb_rows = sort_key (\<lambda>(u, i, r). (u, i))
                    (filter (\<lambda>(u, i, r). r = 1) (user_item_feedback ?U ?I ?ts) @ ns)\<rparr>)"
    unfolding negative_feedback_sampler_def Let_def
    using assms by (simp only: option.case if_False not_True_eq_False simp_thms)
  then show ?thesis
    unfolding pos neg .
qed

lemma observed_row:
  "row \<in> set (rows df) \<Longrightarrow> (row ! ju, row ! ji) \<in> observed df ju ji"
  by (auto simp: observed_def)

lemma observed_user_item:
  assumes "(u, i) \<in> observed df ju ji"
  shows "u \<in> set (first_occurrences (column_values df ju))"
    and "i \<in> set (first_occurrences (column_values df ji))"
  using assms by (auto simp: observed_def set_first_occurrences column_values_def)

lemma filter_eq_distinct:
  "distinct xs \<Longrightarrow> filter (\<lambda>y. y = x) xs = (if x \<in> set xs then [x] else [])"
  by (induction xs) auto

lemma pos_block_item:
  assumes "distinct items"
  shows "filter (\<lambda>x. fst (snd x) = i) (pos_block S items u) =
         (if i \<in> set items \<and> (u, i) \<in> S then [(u, i, 1)] else [])"
  using assms unfolding pos_block_def
  by (induction items) auto

lemma pos_rows_key:
  assumes "distinct us" and "distinct items"
  shows "filter (\<lambda>x. fst x = u \<and> fst (snd x) = i) (concat (map (pos_block S items) us)) =
         (if u \<in> set us \<and> i \<in> set items \<and> (u, i) \<in> S then [(u, i, 1)] else [])"
proof -
  have "filter (\<lambda>x. fst x = u \<and> fst (snd x) = i) (concat (map (pos_block S items) us)) =
        filter (\<lambda>x. fst (snd x) = i)
          (filter (\<lambda>x. fst x = u) (concat (map (pos_block S items) us)))"
    by (simp add: conj_commute)
  also have "filter (\<lambda>x. fst x = u) (concat (map (pos_block S items) us)) =
             (if u \<in> set us then pos_block S items u else [])"
    using assms(1) by (intro filter_user_blocks) (auto dest: pos_block_user)
  finally show ?thesis
    using assms(2) by (simp add: pos_block_item)
qed

lemma neg_rows_props:
  assumes "x \<in> set (concat (map (neg_block S items) us))"
  shows "fst x \<in> set us" and "fst (snd x) \<in> set items"
    and "(fst x, fst (snd x)) \<notin> S" and "snd (snd x) = 0"
  using assms by (auto simp: neg_block_def)



lemma choice_ok_first_positions: "choice_ok first_positions"
  by (auto simp: choice_ok_def first_positions_def list_all_iff)

lemma user_item_pred:
  "(\<lambda>(u', i', r). u' = u \<and> i' = i) = (\<lambda>x. fst x = u \<and> fst (snd x) = i)"
  by (auto simp: fun_eq_iff)

lemma negative_feedback_sampler_Inr_labels:
  assumes "negative_feedback_sampler choice df col_user col_item n seed = Inr out"
  shows "distinct [col_user, col_item, ''rating'']"
proof (rule ccontr)
  assume "\<not> distinct [col_user, col_item, ''rating'']"
  then have "negative_feedback_sampler choice df col_user col_item n seed = Inl ValueError"
    unfolding negative_feedback_sampler_def by (simp split: option.splits)
  with assms show False
    by simp
qed

lemma negative_feedback_sampler_Inr_rows:
  assumes "negative_feedback_sampler choice df col_user col_item n seed = Inr out"
    and "index_of col_user (columns df) = Some ju"
    and "index_of col_item (columns df) = Some ji"
  obtains ns where
    "groupby_sample choice seed n
       (concat (map (neg_block (observed df ju ji) (first_occurrences (column_values df ji)))
                    (first_occurrences (column_values df ju)))) = Inr ns"
    and "out = \<lparr>fb_columns = [col_user, col_item, ''rating''],
                fb_rows = sort_key (\<lambda>(u, i, r). (u, i))
                  (concat (map (pos_block (observed df ju ji)
                                  (first_occurrences (column_values df ji)))
                               (first_occurrences (column_values df ju))) @ ns)\<rparr>"
proof -
  note labels = negative_feedback_sampler_Inr_labels [OF assms(1)]
  note blocks = negative_feedback_sampler_blocks [OF assms(2,3) labels, of choice n seed]
  show ?thesis
  proof (cases "groupby_sample choice seed n
       (concat (map (neg_block (observed df ju ji) (first_occurrences (column_values df ji)))
                    (first_occurrences (column_values df ju))))")
    case (Inl e)
    with blocks assms(1) show ?thesis
      by simp
  next
    case (Inr ns)
    with blocks assms(1) that show ?thesis
      by simp
  qed
qed

text \<open>
  C10: whenever the sampler returns a table, that table has the three columns user, item
  and \<^verbatim>\<open>rating\<close>, and the pair (user, item) of any input row occurs in it in exactly one
  row, with label 1, however often the pair occurs in the input and whatever the other
  columns of the input hold. The sampler does return a table when the three column labels
  are distinct, \<open>0 \<le> number_neg_per_pos\<close>, the seed is one the generator accepts and the
  generator keeps its contract.
\<close>

theorem negative_feedback_sampler_observed_once:
  assumes "index_of col_user (columns df) = Some ju"
    and "index_of col_item (columns df) = Some ji"
    and "row \<in> set (rows df)"
  shows "(\<forall>out. negative_feedback_sampler choice df col_user col_item n seed = Inr out \<longrightarrow>
            fb_columns out = [col_user, col_item, ''rating''] \<and>
            filter (\<lambda>(u, i, r). u = row ! ju \<and> i = row ! ji) (fb_rows out) =
              [(row ! ju, row ! ji, 1)]) \<and>
         (distinct [col_user, col_item, ''rating''] \<and> 0 \<le> n \<and> 0 \<le> seed \<and> seed < 2 ^ 32 \<and>
          choice_ok choice \<longrightarrow>
            (\<exists>out. negative_feedback_sampler choice df col_user col_item n seed = Inr out))"
proof (intro conjI allI impI)
  fix out
  assume ret: "negative_feedback_sampler choice df col_user col_item n seed = Inr out"
  let ?S = "observed df ju ji"
  let ?U = "first_occurrences (column_values df ju)"
  let ?I = "first_occurrences (column_values df ji)"
  let ?pos = "concat (map (pos_block ?S ?I) ?U)"
  let ?neg = "concat (map (neg_block ?S ?I) ?U)"
  let ?P = "\<lambda>x. fst x = row ! ju \<and> fst (snd x) = row ! ji"
  obtain ns where ns: "groupby_sample choice seed n ?neg = Inr ns"
    and out: "out = \<lparr>fb_columns = [col_user, col_item, ''rating''],
                       fb_rows = sort_key (\<lambda>(u, i, r). (u, i)) (?pos @ ns)\<rparr>"
    using ret assms(1,2) by (rule negative_feedback_sampler_Inr_rows)
  show "fb_columns out = [col_user, col_item, ''rating'']"
    by (simp add: out)
  have obs: "(row ! ju, row ! ji) \<in> ?S"
    using assms(3) by (rule observed_row)
  have p: "filter ?P ?pos = [(row ! ju, row ! ji, 1)]"
    using obs observed_user_item [OF obs]
    by (simp add: pos_rows_key distinct_first_occurrences)
  have "\<not> ?P x" if "x \<in> set ns" for x
  proof -
    from that have "x \<in> set ?neg"
      using groupby_sample_subset [OF ns] by blast
    then have "(fst x, fst (snd x)) \<notin> ?S"
      by (rule neg_rows_props)
    with obs show ?thesis
      by auto
  qed
  then have q: "filter ?P ns = []"
    by (simp add: filter_empty_conv)
  have "filter ?P (fb_rows out) = sort_key (\<lambda>(u, i, r). (u, i)) (filter ?P (?pos @ ns))"
    by (simp add: out filter_sort)
  also have "\<dots> = [(row ! ju, row ! ji, 1)]"
    unfolding filter_append p q by simp
  finally show "filter (\<lambda>(u, i, r). u = row ! ju \<and> i = row ! ji) (fb_rows out) =
                [(row ! ju, row ! ji, 1)]"
    by (simp only: user_item_pred)
next
  assume a: "distinct [col_user, col_item, ''rating''] \<and> 0 \<le> n \<and> 0 \<le> seed \<and> seed < 2 ^ 32 \<and>
             choice_ok choice"
  then have labels: "distinct [col_user, col_item, ''rating'']"
    and ok: "choice_ok choice" and seed: "0 \<le> seed" "seed < 2 ^ 32" and n: "0 \<le> n"
    by blast+
  show "\<exists>out. negative_feedback_sampler choice df col_user col_item n seed = Inr out"
    unfolding negative_feedback_sampler_blocks [OF assms(1,2) labels]
      groupby_sample_drawn [OF ok seed n]
    by simp
qed

theorem negative_feedback_sampler_observed_once_witness:
  "\<exists>out. negative_feedback_sampler first_positions df_repeated ''userID'' ''itemID'' 1 42 = Inr out \<and>
         fb_columns out = [''userID'', ''itemID'', ''rating''] \<and>
         filter (\<lambda>(u, i, r). u = 1 \<and> i = 1) (fb_rows out) = [(1, 1, 1)]"
proof -
  have ju: "index_of ''userID'' (columns df_repeated) = Some 0"
    and ji: "index_of ''itemID'' (columns df_repeated) = Some 1"
    by (simp_all add: df_repeated_def)
  have row: "[1, 1, 3] \<in> set (rows df_repeated)"
    by (simp add: df_repeated_def)
  have labels: "distinct [''userID'', ''itemID'', ''rating'']"
    by simp
  note t = negative_feedback_sampler_observed_once [OF ju ji row, of first_positions 1 42]
  from t labels choice_ok_first_positions
  obtain out where
    out: "negative_feedback_sampler first_positions df_repeated ''userID'' ''itemID'' 1 42 = Inr out"
    by auto
  with t have "fb_columns out = [''userID'', ''itemID'', ''rating''] \<and>
      filter (\<lambda>(u, i, r). u = [1, 1, 3] ! 0 \<and> i = [1, 1, 3] ! 1) (fb_rows out) =
        [([1, 1, 3] ! 0, [1, 1, 3] ! 1, 1)]"
    by blast
  with out show ?thesis
    by auto
qed


subsection \<open>Counting and distinctness\<close>





lemma length_filter_sort_key: "length (filter P (sort_key f xs)) = length (filter P xs)"
  by (simp add: filter_sort)








lemma groupby_sample_negative:
  assumes "n < 0" and "neg \<noteq> []"
  shows "groupby_sample choice seed n neg = Inl ValueError"
proof -
  have "group_keys neg \<noteq> []"
    using assms(2) set_group_keys [of neg] by (metis empty_set image_is_empty set_empty)
  then obtain k ks where ks: "group_keys neg = k # ks"
    by (cases "group_keys neg") auto
  have "sample_rows choice seed (min n (int (length (group_rows neg k)))) (group_rows neg k) =
        Inl ValueError"
    using assms(1) by (simp add: sample_rows_def)
  then show ?thesis
    by (simp add: groupby_sample_def ks)
qed






subsection \<open>What the result depends on\<close>








lemma choice_ok_last_positions: "choice_ok last_positions"
proof -
  have "distinct (map (\<lambda>k. pop - 1 - k) [0..<n])" if "n \<le> pop" for pop n :: nat
    using that by (auto simp: distinct_map inj_on_def)
  then show ?thesis
    by (auto simp: choice_ok_def last_positions_def list_all_iff)
qed





end
